theory Spec2Isabelle
  imports Main "HOL-Library.AList"
begin

section \<open>Python values shared by both modules\<close>

text \<open>
  The exceptions that the modelled code can raise or has to handle. Every raise of the
  source is a value of this type in the model.
\<close>

datatype py_error =
    FileNotFoundError
  | NotADirectoryError
  | PermissionError
  | TimeoutExpired
  | UnicodeDecodeError
  | TypeError
  | AttributeError
  | OtherException

text \<open>
  \<open>posixpath.join\<close> for two arguments: a second component that starts with the separator
  replaces the first; an empty first component or one that already ends with the
  separator takes no extra separator.
\<close>

definition os_path_join :: "string \<Rightarrow> string \<Rightarrow> string" where
  "os_path_join a b =
     (if b \<noteq> [] \<and> hd b = CHR ''/'' then b
      else if a = [] \<or> last a = CHR ''/'' then a @ b
      else a @ ''/'' @ b)"

text \<open>\<open>str.startswith(".")\<close>.\<close>

definition starts_with_dot :: "string \<Rightarrow> bool" where
  "starts_with_dot s = (case s of [] \<Rightarrow> False | c # _ \<Rightarrow> c = CHR ''.'')"

text \<open>
  \<open>str.strip()\<close> without arguments removes leading and trailing whitespace. For code
  points below 256 the whitespace characters of Python's \<open>str\<close> are the ones listed.
\<close>

definition py_isspace :: "char \<Rightarrow> bool" where
  "py_isspace c = ((of_char c :: nat) \<in> set [9, 10, 11, 12, 13, 28, 29, 30, 31, 32, 133, 160])"

definition py_strip :: "string \<Rightarrow> string" where
  "py_strip s = rev (dropWhile py_isspace (rev (dropWhile py_isspace s)))"

section \<open>Git manager: branch lookup\<close>

text \<open>
  \<open>subprocess.run(args, cwd=..., capture_output=True, text=True, timeout=5)\<close> either
  completes with a return code and the captured standard output, or raises
  (\<open>TimeoutExpired\<close> after five seconds, \<open>FileNotFoundError\<close> when there is no
  executable, or anything else). The external command is a parameter of the model.
\<close>

datatype run_result = Completed int string | Raised py_error

type_synonym runner = "string list \<Rightarrow> string \<Rightarrow> run_result"

definition abbrev_ref_cmd :: "string list" where
  "abbrev_ref_cmd = [''git'', ''rev-parse'', ''--abbrev-ref'', ''HEAD'']"

definition short_head_cmd :: "string list" where
  "short_head_cmd = [''git'', ''rev-parse'', ''--short'', ''HEAD'']"

text \<open>
  \<open>GitManagerModule._get_branch_name\<close>: the \<open>except\<close> clause catches every exception of
  either call and falls through to the final \<open>return "Unknown"\<close>, as does a second
  command that exits with a non-zero code.
\<close>

definition get_branch_name :: "runner \<Rightarrow> string \<Rightarrow> string" where
  "get_branch_name run repo_path =
     (case run abbrev_ref_cmd repo_path of
        Raised e \<Rightarrow> ''Unknown''
      | Completed returncode stdout \<Rightarrow>
          if returncode = 0 then py_strip stdout
          else (case run short_head_cmd repo_path of
                  Raised e \<Rightarrow> ''Unknown''
                | Completed returncode2 stdout2 \<Rightarrow>
                    if returncode2 = 0 then ''detached-'' @ py_strip stdout2
                    else ''Unknown''))"

section \<open>Git manager: repository scan\<close>

text \<open>
  The scanned directory tree. A directory carries whether \<open>os.listdir\<close> on it succeeds
  (\<open>False\<close>: it raises \<open>PermissionError\<close>) and its entries by name. Symbolic links are
  outside the model, so the tree has no cycles; \<open>os.path.isdir\<close> on an entry is taken
  to succeed whatever the permissions of its parent.
\<close>

datatype fsnode = File | Dir bool "(string \<times> fsnode) list"

text \<open>\<open>os.path.isdir(os.path.join(item_path, ".git"))\<close> on the entries of \<open>item_path\<close>.\<close>

definition has_git_dir :: "(string \<times> fsnode) list \<Rightarrow> bool" where
  "has_git_dir entries =
     list_ex (\<lambda>(n, c). n = ''.git'' \<and> (case c of File \<Rightarrow> False | Dir _ _ \<Rightarrow> True)) entries"

text \<open>An element of \<open>repos\<close>: the dictionary with the keys \<open>path\<close>, \<open>name\<close> and \<open>branch\<close>.\<close>

record repo =
  r_path :: string
  r_name :: string
  r_branch :: string

text \<open>The two variables the nested function closes over.\<close>

record scan_state =
  repos :: "repo list"
  found_paths :: "string set"

text \<open>
  \<open>search_directory\<close> is called on directories only (the root apart, see
  \<open>find_all_git_repositories\<close>), so it takes the directory's listing flag and entries.
  \<open>search_items\<close> is the body of its \<open>for\<close> loop.
\<close>

fun search_directory ::
    "(string \<Rightarrow> string) \<Rightarrow> string \<Rightarrow> bool \<Rightarrow> (string \<times> fsnode) list \<Rightarrow> nat \<Rightarrow> scan_state \<Rightarrow> scan_state"
  and search_items ::
    "(string \<Rightarrow> string) \<Rightarrow> string \<Rightarrow> (string \<times> fsnode) list \<Rightarrow> nat \<Rightarrow> scan_state \<Rightarrow> scan_state"
where
  "search_directory br p listable entries depth st =
     (if depth > 3 then st
      else if \<not> listable then st
      else search_items br p entries depth st)"
| "search_items br p [] depth st = st"
| "search_items br p ((item, node) # rest) depth st =
     (if starts_with_dot item then search_items br p rest depth st
      else
        (case node of
           File \<Rightarrow> search_items br p rest depth st
         | Dir l sub \<Rightarrow>
             (let item_path = os_path_join p item;
                  st1 = (if has_git_dir sub \<and> item_path \<notin> found_paths st
                         then \<lparr>repos = repos st @
                                 [\<lparr>r_path = item_path, r_name = item,
                                   r_branch = br item_path\<rparr>],
                               found_paths = insert item_path (found_paths st)\<rparr>
                         else st)
              in search_items br p rest depth
                   (search_directory br item_path l sub (depth + 1) st1))))"

text \<open>
  \<open>GitManagerModule._find_all_git_repositories\<close>. The first \<open>os.listdir\<close> is on the root
  itself: a root that does not exist or is a file raises an error that the
  \<open>except PermissionError\<close> does not catch.
\<close>

definition find_all_git_repositories ::
    "runner \<Rightarrow> string \<Rightarrow> fsnode option \<Rightarrow> py_error + repo list" where
  "find_all_git_repositories run root_path root =
     (case root of
        None \<Rightarrow> Inl FileNotFoundError
      | Some File \<Rightarrow> Inl NotADirectoryError
      | Some (Dir l entries) \<Rightarrow>
          Inr (repos (search_directory (get_branch_name run) root_path l entries 0
                        \<lparr>repos = [], found_paths = {}\<rparr>)))"

section \<open>Repository scan: what is reported\<close>

text \<open>
  The scan as the specification words it: the paths of all subdirectories that contain a
  \<open>.git\<close> directory, at depths 1 to \<open>k\<close> below the directory \<open>p\<close>.
\<close>

fun marked_subdirs :: "nat \<Rightarrow> string \<Rightarrow> (string \<times> fsnode) list \<Rightarrow> string list" where
  "marked_subdirs 0 p entries = []"
| "marked_subdirs (Suc k) p entries =
     concat (map (\<lambda>(item, node).
        case node of
          File \<Rightarrow> []
        | Dir l sub \<Rightarrow>
            (if has_git_dir sub then [os_path_join p item] else []) @
            marked_subdirs k (os_path_join p item) sub) entries)"

text \<open>
  The directories the walk can reach and report: at depths 1 to \<open>k\<close> below \<open>p\<close>, below
  listable directories only, with no dot-prefixed name on the way.
\<close>

fun reachable_marked :: "nat \<Rightarrow> string \<Rightarrow> bool \<Rightarrow> (string \<times> fsnode) list \<Rightarrow> string list" where
  "reachable_marked 0 p listable entries = []"
| "reachable_marked (Suc k) p listable entries =
     (if \<not> listable then []
      else concat (map (\<lambda>(item, node).
        if starts_with_dot item then []
        else (case node of
          File \<Rightarrow> []
        | Dir l sub \<Rightarrow>
            (if has_git_dir sub then [os_path_join p item] else []) @
            reachable_marked k (os_path_join p item) l sub)) entries))"

text \<open>
  Names as \<open>os.listdir\<close> returns them are not empty and hold no separator.
\<close>

definition valid_name :: "string \<Rightarrow> bool" where
  "valid_name n = (n \<noteq> [] \<and> CHR ''/'' \<notin> set n)"

fun names_ok :: "(string \<times> fsnode) list \<Rightarrow> bool" where
  "names_ok [] = True"
| "names_ok ((n, File) # rest) = (valid_name n \<and> names_ok rest)"
| "names_ok ((n, Dir l sub) # rest) = (valid_name n \<and> names_ok sub \<and> names_ok rest)"

text \<open>
  A chain of names that leads, directory by directory from the given entries, to a
  directory that contains a \<open>.git\<close> directory.
\<close>

fun marked_chain :: "(string \<times> fsnode) list \<Rightarrow> string list \<Rightarrow> bool" where
  "marked_chain entries [] = False"
| "marked_chain entries (c # cs) =
     list_ex (\<lambda>(n, node). n = c \<and>
        (case node of
           File \<Rightarrow> False
         | Dir l sub \<Rightarrow> if cs = [] then has_git_dir sub else marked_chain sub cs)) entries"

text \<open>
  A repository record that stands for such a chain below the directory \<open>p\<close>: no name
  of the chain is dot-prefixed, the path is \<open>p\<close> joined with the names in turn, and the
  name is the last of them.
\<close>

definition reported_via :: "string \<Rightarrow> (string \<times> fsnode) list \<Rightarrow> repo \<Rightarrow> bool" where
  "reported_via p entries r =
     (\<exists>comps. marked_chain entries comps \<and> (\<forall>c\<in>set comps. \<not> starts_with_dot c) \<and>
        r_path r = foldl os_path_join p comps \<and> r_name r = last comps)"

text \<open>Example trees and an example \<open>git\<close> that answers \<open>main\<close>.\<close>

definition deep_entries :: "(string \<times> fsnode) list" where
  "deep_entries =
     [(''a'', Dir True [(''b'', Dir True [(''c'', Dir True
        [(''d'', Dir True [(''.git'', Dir True [])])])])])]"

definition dotted_entries :: "(string \<times> fsnode) list" where
  "dotted_entries =
     [(''.git'', Dir True []),
      (''.cache'', Dir True [(''x'', Dir True [(''.git'', Dir True [])])]),
      (''.hidden'', Dir True [(''.git'', Dir True [])]),
      (''app'', Dir True [(''.git'', Dir True []), (''README'', File)])]"

definition git_main :: runner where
  "git_main args cwd = Completed 0 ''main''"

section \<open>Color configuration: values, files and the store\<close>

text \<open>
  The values \<open>json.load\<close> returns and \<open>json.dump\<close> accepts. A dictionary is an
  association list in insertion order; \<open>AList.update\<close> replaces the value of a present
  key in place and appends an absent one, as assignment to a Python \<open>dict\<close> does. A
  float is carried by the text of its \<open>repr\<close>.
\<close>

datatype json =
    JNull
  | JBool bool
  | JInt int
  | JFloat string
  | JStr string
  | JArr "json list"
  | JObj "(string \<times> json) list"

text \<open>
  What a path holds on disk, seen through \<open>open(path, 'r')\<close> and \<open>json.load\<close>: a text
  that parses to a value, a text that \<open>json.load\<close> rejects with \<open>JSONDecodeError\<close>,
  bytes that are no text in the locale's encoding (\<open>UnicodeDecodeError\<close>, a
  \<open>ValueError\<close> that the \<open>except\<close> clause does not name), or something that cannot be
  opened for reading (\<open>IOError\<close>). The serialised text stands for the value it denotes:
  \<open>json.dump\<close> and \<open>json.load\<close> are library code, and that \<open>json.load\<close> reads back
  what \<open>json.dump\<close> wrote is taken from the library.
\<close>

datatype disk_file = JsonText json | InvalidJson | Undecodable | Unreadable

type_synonym disk = "string \<Rightarrow> disk_file option"

text \<open>
  \<open>posixpath.dirname\<close>: everything up to the last separator, without trailing
  separators unless it consists of separators only.
\<close>

definition os_path_dirname :: "string \<Rightarrow> string" where
  "os_path_dirname p =
     (let head = rev (dropWhile (\<lambda>c. c \<noteq> CHR ''/'') (rev p))
      in if head \<noteq> [] \<and> head \<noteq> replicate (length head) (CHR ''/'')
         then rev (dropWhile (\<lambda>c. c = CHR ''/'') (rev head))
         else head)"

text \<open>
  The fields of a \<open>ColorConfig\<close> object. \<open>module_colors\<close> is annotated
  \<open>Dict[str, Dict[str, str]]\<close>, but it is whatever the file holds under \<open>"modules"\<close>,
  so it is a \<open>json\<close> here. \<open>shared\<close> records that \<open>self.config["modules"]\<close> and
  \<open>self.module_colors\<close> are one and the same object, so that a change made in place
  through one name shows through the other.
\<close>

record color_config =
  config_path :: string
  config :: "(string \<times> json) list"
  module_colors :: json
  shared :: bool

text \<open>
  A method call on a store returns the exception it raised, if any, with the object and
  the disk as the call left them: an exception does not undo what was assigned before it.
\<close>

type_synonym outcome = "py_error option \<times> color_config \<times> disk"

text \<open>\<open>DEFAULT_CONFIG_PATH\<close>, from the application root the module file lies in.\<close>

definition default_config_path :: "string \<Rightarrow> string" where
  "default_config_path app_root = os_path_join (os_path_join app_root ''config'') ''colors.json''"

definition default_window :: json where
  "default_window = JObj [(''bg_color'', JStr ''#00c8f9''), (''fg_color'', JStr ''#ffffff'')]"

text \<open>An in-place change of the dictionary that \<open>self.module_colors\<close> names.\<close>

definition mutate_module_colors :: "color_config \<Rightarrow> json \<Rightarrow> color_config" where
  "mutate_module_colors st v =
     st\<lparr>module_colors := v,
        config := (if shared st then AList.update ''modules'' v (config st) else config st)\<rparr>"

text \<open>
  \<open>ColorConfig.save_config\<close>. \<open>path or self.config_path\<close> takes the store's own path for
  \<open>None\<close> and for the empty string. \<open>os.makedirs\<close> raises \<open>FileNotFoundError\<close> on the
  empty directory name, also with \<open>exist_ok=True\<close>; with any other name it and the
  \<open>open(save_path, 'w')\<close> after it are taken to succeed.
\<close>

definition save_path_of :: "color_config \<Rightarrow> string option \<Rightarrow> string" where
  "save_path_of st path =
     (case path of None \<Rightarrow> config_path st | Some p \<Rightarrow> if p = [] then config_path st else p)"

definition save_config :: "color_config \<Rightarrow> disk \<Rightarrow> string option \<Rightarrow> outcome" where
  "save_config st fs path =
     (let save_path = save_path_of st path
      in if os_path_dirname save_path = [] then (Some FileNotFoundError, st, fs)
         else
           (let st1 = st\<lparr>config := AList.update ''modules'' (module_colors st) (config st),
                         shared := True\<rparr>
            in (None, st1, fs(save_path \<mapsto> JsonText (JObj (config st1))))))"

text \<open>\<open>ColorConfig._create_default_config\<close>.\<close>

definition default_document :: "(string \<times> json) list" where
  "default_document =
     [(''version'', JStr ''1.0''),
      (''description'', JStr ''Color configuration for application modules''),
      (''modules'', JObj []),
      (''window'', JObj [(''bg_color'', JStr ''#00c8f9''), (''fg_color'', JStr ''#ffffff'')]),
      (''settings'', JObj [(''auto_apply'', JBool True), (''preview_changes'', JBool True)])]"

definition create_default_config :: "color_config \<Rightarrow> disk \<Rightarrow> outcome" where
  "create_default_config st fs =
     save_config (st\<lparr>config := default_document, module_colors := JObj [], shared := False\<rparr>)
       fs None"

text \<open>
  \<open>ColorConfig._load_config\<close>, called by the constructor only: an exception that leaves
  it leaves the constructor too, and there is no object then. A document that is not a
  dictionary has no \<open>get\<close>: \<open>AttributeError\<close>.
\<close>

definition load_config :: "color_config \<Rightarrow> disk \<Rightarrow> py_error + (color_config \<times> disk)" where
  "load_config st fs =
     (let created = (case create_default_config st fs of
                       (Some e, _, _) \<Rightarrow> Inl e
                     | (None, st1, fs1) \<Rightarrow> Inr (st1, fs1))
      in case fs (config_path st) of
           None \<Rightarrow> created
         | Some Unreadable \<Rightarrow> created
         | Some InvalidJson \<Rightarrow> created
         | Some Undecodable \<Rightarrow> Inl UnicodeDecodeError
         | Some (JsonText (JObj d)) \<Rightarrow>
             Inr (st\<lparr>config := d,
                      module_colors := (case map_of d ''modules'' of Some m \<Rightarrow> m | None \<Rightarrow> JObj []),
                      shared := (map_of d ''modules'' \<noteq> None)\<rparr>, fs)
         | Some (JsonText _) \<Rightarrow> Inl AttributeError)"

text \<open>\<open>ColorConfig.__init__\<close>: \<open>config_path or self.DEFAULT_CONFIG_PATH\<close>.\<close>

definition ColorConfig_init ::
    "string \<Rightarrow> string option \<Rightarrow> disk \<Rightarrow> py_error + (color_config \<times> disk)" where
  "ColorConfig_init app_root path fs =
     load_config
       \<lparr>config_path = (case path of None \<Rightarrow> default_config_path app_root
                        | Some p \<Rightarrow> if p = [] then default_config_path app_root else p),
        config = [], module_colors = JObj [], shared = False\<rparr> fs"

text \<open>
  \<open>ColorConfig.get_module_color\<close>: only a dictionary has \<open>get\<close>; a module without an
  entry is looked up in the empty dictionary.
\<close>

definition get_module_color :: "color_config \<Rightarrow> string \<Rightarrow> string \<Rightarrow> py_error + json option" where
  "get_module_color st module_name color_type =
     (case module_colors st of
        JObj d \<Rightarrow>
          (case (case map_of d module_name of Some v \<Rightarrow> v | None \<Rightarrow> JObj []) of
             JObj module_config \<Rightarrow> Inr (map_of module_config color_type)
           | _ \<Rightarrow> Inl AttributeError)
      | _ \<Rightarrow> Inl AttributeError)"

text \<open>
  \<open>ColorConfig.set_module_color\<close>. When \<open>module_colors\<close> is not a dictionary, the
  membership test or the item assignment after it raises \<open>TypeError\<close> before anything
  changes; so does the assignment into an entry that is not a dictionary.
\<close>

definition set_module_color ::
    "color_config \<Rightarrow> disk \<Rightarrow> string \<Rightarrow> string \<Rightarrow> string \<Rightarrow> bool \<Rightarrow> outcome" where
  "set_module_color st fs module_name color_type color_value auto_save =
     (case module_colors st of
        JObj d \<Rightarrow>
          (let d1 = (if map_of d module_name = None then AList.update module_name (JObj []) d
                     else d)
           in case map_of d1 module_name of
                Some (JObj e) \<Rightarrow>
                  (let st1 = mutate_module_colors st
                       (JObj (AList.update module_name
                          (JObj (AList.update color_type (JStr color_value) e)) d1))
                   in if auto_save then save_config st1 fs None else (None, st1, fs))
              | _ \<Rightarrow> (Some TypeError, st, fs))
      | _ \<Rightarrow> (Some TypeError, st, fs))"

text \<open>\<open>sub in s\<close> on two strings.\<close>

fun py_str_contains :: "string \<Rightarrow> string \<Rightarrow> bool" where
  "py_str_contains [] sub = (sub = [])"
| "py_str_contains (c # cs) sub = (take (length sub) (c # cs) = sub \<or> py_str_contains cs sub)"

text \<open>The table \<open>module_themes\<close> of \<open>register_module\<close>.\<close>

definition module_themes :: "(string \<times> (string \<times> string) list) list" where
  "module_themes =
     [(''Dashboard'', [(''bg_color'', ''#ffffff''), (''fg_color'', ''#2c3e50'')]),
      (''System Status'', [(''bg_color'', ''#1a1a2e''), (''fg_color'', ''#00d4ff'')]),
      (''Git Manager'', [(''bg_color'', ''#0d1117''), (''fg_color'', ''#58a6ff'')]),
      (''Log'', [(''bg_color'', ''#000000''), (''fg_color'', ''#00ff00'')])]"

text \<open>
  \<open>ColorConfig.register_module\<close>. \<open>module_name not in self.module_colors\<close> is a key test
  on a dictionary, an element test on a list and a substring test on a string, and
  raises \<open>TypeError\<close> on anything else; where the test finds the name absent in a list or
  a string, the item assignment raises \<open>TypeError\<close>.
\<close>

definition register_module ::
    "color_config \<Rightarrow> disk \<Rightarrow> string \<Rightarrow> string \<Rightarrow> string \<Rightarrow> outcome" where
  "register_module st fs module_name default_bg default_fg =
     (let theme_colors = (case map_of module_themes module_name of Some t \<Rightarrow> t | None \<Rightarrow> []);
          theme_bg = (case map_of theme_colors ''bg_color'' of Some c \<Rightarrow> c | None \<Rightarrow> default_bg);
          theme_fg = (case map_of theme_colors ''fg_color'' of Some c \<Rightarrow> c | None \<Rightarrow> default_fg)
      in case module_colors st of
           JObj d \<Rightarrow>
             if map_of d module_name = None then
               save_config
                 (mutate_module_colors st
                    (JObj (AList.update module_name
                       (JObj [(''bg_color'', JStr theme_bg), (''fg_color'', JStr theme_fg)]) d)))
                 fs None
             else (None, st, fs)
         | JArr xs \<Rightarrow>
             if JStr module_name \<notin> set xs then (Some TypeError, st, fs) else (None, st, fs)
         | JStr s \<Rightarrow>
             if \<not> py_str_contains s module_name then (Some TypeError, st, fs) else (None, st, fs)
         | _ \<Rightarrow> (Some TypeError, st, fs))"

text \<open>
  \<open>ColorConfig.reset_to_defaults\<close>: two fresh empty dictionaries and a fresh window
  pair, then the save.
\<close>

definition reset_to_defaults :: "color_config \<Rightarrow> disk \<Rightarrow> outcome" where
  "reset_to_defaults st fs =
     save_config
       (st\<lparr>module_colors := JObj [],
           config := AList.update ''window''
                       (JObj [(''bg_color'', JStr ''#00c8f9''), (''fg_color'', JStr ''#ffffff'')])
                       (AList.update ''modules'' (JObj []) (config st)),
           shared := False\<rparr>)
       fs None"

section \<open>Color configuration: example stores and disks\<close>

text \<open>A store as loaded from the application's own file, before and after a module is added.\<close>

definition themed_store :: color_config where
  "themed_store =
     \<lparr>config_path = ''/opt/app/config/colors.json'',
      config = [(''version'', JStr ''1.0''),
                (''description'', JStr ''my colors''),
                (''modules'', JObj [(''Log'', JObj [(''bg_color'', JStr ''#000000''),
                                                    (''fg_color'', JStr ''#00ff00'')])]),
                (''window'', JObj [(''bg_color'', JStr ''#333333''), (''fg_color'', JStr ''#eeeeee'')]),
                (''settings'', JObj [(''auto_apply'', JBool False)])],
      module_colors = JObj [(''Log'', JObj [(''bg_color'', JStr ''#000000''),
                                            (''fg_color'', JStr ''#00ff00'')])],
      shared = True\<rparr>"

definition themed_after_notes :: color_config where
  "themed_after_notes =
     \<lparr>config_path = ''/opt/app/config/colors.json'',
      config = [(''version'', JStr ''1.0''),
                (''description'', JStr ''my colors''),
                (''modules'', JObj [(''Log'', JObj [(''bg_color'', JStr ''#000000''),
                                                    (''fg_color'', JStr ''#00ff00'')]),
                                    (''Notes'', JObj [(''bg_color'', JStr ''#111111''),
                                                      (''fg_color'', JStr ''#222222'')])]),
                (''window'', JObj [(''bg_color'', JStr ''#333333''), (''fg_color'', JStr ''#eeeeee'')]),
                (''settings'', JObj [(''auto_apply'', JBool False)])],
      module_colors = JObj [(''Log'', JObj [(''bg_color'', JStr ''#000000''),
                                            (''fg_color'', JStr ''#00ff00'')]),
                            (''Notes'', JObj [(''bg_color'', JStr ''#111111''),
                                              (''fg_color'', JStr ''#222222'')])],
      shared = True\<rparr>"

text \<open>A store without modules.\<close>

definition empty_store :: color_config where
  "empty_store =
     \<lparr>config_path = ''/opt/app/config/colors.json'',
      config = [(''modules'', JObj [])],
      module_colors = JObj [],
      shared = True\<rparr>"

text \<open>A configuration file in the working directory, named without a directory part.\<close>

definition bare_document :: "(string \<times> json) list" where
  "bare_document =
     [(''version'', JStr ''1.0''),
      (''modules'', JObj [(''Log'', JObj [(''bg_color'', JStr ''#101010''),
                                          (''fg_color'', JStr ''#fafafa'')])]),
      (''window'', JObj [(''bg_color'', JStr ''#333333''), (''fg_color'', JStr ''#eeeeee'')])]"

definition bare_disk :: disk where
  "bare_disk = [''colors.json'' \<mapsto> JsonText (JObj bare_document)]"

section \<open>Branch lookup: the fallback label\<close>



section \<open>Repository scan: invariants of the walk\<close>

lemma reachable_marked_unlistable: "reachable_marked k p False es = []"
  by (cases k) simp_all

lemma reachable_marked_Nil: "reachable_marked k p l [] = []"
  by (cases k) simp_all

lemma reachable_marked_Cons:
  "reachable_marked (Suc k) p True ((item, node) # rest) =
     (if starts_with_dot item then []
      else (case node of
          File \<Rightarrow> []
        | Dir l sub \<Rightarrow>
            (if has_git_dir sub then [os_path_join p item] else []) @
            reachable_marked k (os_path_join p item) l sub)) @
     reachable_marked (Suc k) p True rest"
  by simp

lemma scan_inv:
  "found_paths st = r_path ` set (repos st) \<Longrightarrow>
     found_paths (search_directory br p l es d st) = r_path ` set (repos (search_directory br p l es d st)) \<and>
     found_paths (search_directory br p l es d st) = found_paths st \<union> set (reachable_marked (4 - d) p l es)"
  "found_paths st = r_path ` set (repos st) \<Longrightarrow> d \<le> 3 \<Longrightarrow>
     found_paths (search_items br p es d st) = r_path ` set (repos (search_items br p es d st)) \<and>
     found_paths (search_items br p es d st) = found_paths st \<union> set (reachable_marked (4 - d) p True es)"
proof (induction br p l es d st and br p es d st rule: search_directory_search_items.induct)
  case (1 br p listable entries depth st)
  show ?case
  proof (cases "depth > 3")
    case True
    then have "4 - depth = 0" by simp
    with True 1(2) show ?thesis by simp
  next
    case d: False
    show ?thesis
    proof (cases listable)
      case True
      have le: "depth \<le> 3" using d by simp
      have unf: "search_directory br p True entries depth st = search_items br p entries depth st"
        using d by simp
      have nn: "\<not> \<not> listable" using True by simp
      have lt: "listable = True" using True by simp
      from 1(1)[OF d nn 1(2) le] show ?thesis
        unfolding lt unf .
    next
      case False
      with d 1(2) show ?thesis by (simp add: reachable_marked_unlistable)
    qed
  qed
next
  case (2 br p depth st)
  then show ?case by (simp add: reachable_marked_Nil)
next
  case (3 br p item node rest depth st)
  obtain k where k: "4 - depth = Suc k" using "3.prems"(2) by (cases "4 - depth") auto
  then have k': "4 - (depth + 1) = k" by simp
  show ?case
  proof (cases "starts_with_dot item")
    case True
    have unf: "search_items br p ((item, node) # rest) depth st = search_items br p rest depth st"
      using True by simp
    have spec: "reachable_marked (4 - depth) p True ((item, node) # rest) =
                reachable_marked (4 - depth) p True rest"
      using True k by (simp add: reachable_marked_Cons del: reachable_marked.simps)
    from "3.IH"(1)[OF True "3.prems"] show ?thesis unfolding unf spec .
  next
    case nd: False
    show ?thesis
    proof (cases node)
      case File
      have unf: "search_items br p ((item, node) # rest) depth st = search_items br p rest depth st"
        using nd File by simp
      have spec: "reachable_marked (4 - depth) p True ((item, node) # rest) =
                  reachable_marked (4 - depth) p True rest"
        using nd File k by (simp add: reachable_marked_Cons del: reachable_marked.simps)
      from "3.IH"(2)[OF nd File "3.prems"] show ?thesis unfolding unf spec .
    next
      case (Dir l sub)
      define ip where "ip = os_path_join p item"
      define st1 where "st1 = (if has_git_dir sub \<and> ip \<notin> found_paths st
                         then \<lparr>repos = repos st @
                                 [\<lparr>r_path = ip, r_name = item,
                                   r_branch = br ip\<rparr>],
                               found_paths = insert ip (found_paths st)\<rparr>
                         else st)"
      have inv1: "found_paths st1 = r_path ` set (repos st1)"
        using "3.prems"(1) by (auto simp: st1_def)
      have f1: "found_paths st1 = found_paths st \<union> (if has_git_dir sub then {ip} else {})"
        by (auto simp: st1_def)
      note ih1 = "3.IH"(3)[OF nd Dir ip_def st1_def inv1]
      note ih2 = "3.IH"(4)[OF nd Dir ip_def st1_def conjunct1[OF ih1] "3.prems"(2)]
      have unf: "search_items br p ((item, node) # rest) depth st =
          search_items br p rest depth (search_directory br ip l sub (depth + 1) st1)"
        using nd Dir by (simp add: ip_def st1_def Let_def)
      have spec: "set (reachable_marked (4 - depth) p True ((item, node) # rest)) =
          (if has_git_dir sub then {ip} else {}) \<union> set (reachable_marked k ip l sub)
           \<union> set (reachable_marked (4 - depth) p True rest)"
        using nd Dir k by (simp add: reachable_marked_Cons ip_def del: reachable_marked.simps)
      define stA where "stA = search_directory br ip l sub (depth + 1) st1"
      define stB where "stB = search_items br p rest depth stA"
      have a: "found_paths stA = found_paths st1 \<union> set (reachable_marked k ip l sub)"
        using conjunct2[OF ih1] unfolding k' stA_def .
      have b: "found_paths stB = r_path ` set (repos stB)"
        using conjunct1[OF ih2] unfolding stA_def stB_def .
      have c: "found_paths stB = found_paths stA \<union> set (reachable_marked (4 - depth) p True rest)"
        using conjunct2[OF ih2] unfolding stA_def stB_def .
      have "found_paths stB = found_paths st \<union>
              ((if has_git_dir sub then {ip} else {}) \<union> set (reachable_marked k ip l sub)
               \<union> set (reachable_marked (4 - depth) p True rest))"
        unfolding c a f1 by (simp only: Un_assoc)
      with b show ?thesis
        unfolding unf spec stA_def[symmetric] stB_def[symmetric] by (rule conjI)
    qed
  qed
qed

lemma join_longer: "valid_name n \<Longrightarrow> length p < length (os_path_join p n)"
  by (cases n) (auto simp: os_path_join_def valid_name_def)

lemma scan_distinct:
  "found_paths st = r_path ` set (repos st) \<Longrightarrow> distinct (map r_path (repos st)) \<Longrightarrow>
     distinct (map r_path (repos (search_directory br p l es d st)))"
  "found_paths st = r_path ` set (repos st) \<Longrightarrow> distinct (map r_path (repos st)) \<Longrightarrow> d \<le> 3 \<Longrightarrow>
     distinct (map r_path (repos (search_items br p es d st)))"
proof (induction br p l es d st and br p es d st rule: search_directory_search_items.induct)
  case (1 br p listable entries depth st)
  show ?case
  proof (cases "depth > 3 \<or> \<not> listable")
    case True
    then show ?thesis using "1.prems"(2) by auto
  next
    case False
    then have a: "\<not> 3 < depth" and b: "\<not> \<not> listable" and le: "depth \<le> 3" by auto
    have unf: "search_directory br p listable entries depth st = search_items br p entries depth st"
      using False by simp
    from "1.IH"[OF a b "1.prems" le] show ?thesis unfolding unf .
  qed
next
  case (2 br p depth st)
  then show ?case by simp
next
  case (3 br p item node rest depth st)
  show ?case
  proof (cases "starts_with_dot item")
    case True
    have unf: "search_items br p ((item, node) # rest) depth st = search_items br p rest depth st"
      using True by simp
    from "3.IH"(1)[OF True "3.prems"] show ?thesis unfolding unf .
  next
    case nd: False
    show ?thesis
    proof (cases node)
      case File
      have unf: "search_items br p ((item, node) # rest) depth st = search_items br p rest depth st"
        using nd File by simp
      from "3.IH"(2)[OF nd File "3.prems"] show ?thesis unfolding unf .
    next
      case (Dir l sub)
      define ip where "ip = os_path_join p item"
      define st1 where "st1 = (if has_git_dir sub \<and> ip \<notin> found_paths st
                         then \<lparr>repos = repos st @
                                 [\<lparr>r_path = ip, r_name = item,
                                   r_branch = br ip\<rparr>],
                               found_paths = insert ip (found_paths st)\<rparr>
                         else st)"
      have inv1: "found_paths st1 = r_path ` set (repos st1)"
        using "3.prems"(1) by (auto simp: st1_def)
      have d1: "distinct (map r_path (repos st1))"
        using "3.prems"(1,2) by (auto simp: st1_def)
      note invA = conjunct1[OF scan_inv(1)[OF inv1, of br ip l sub "depth + 1"]]
      note ih1 = "3.IH"(3)[OF nd Dir ip_def st1_def inv1 d1]
      note ih2 = "3.IH"(4)[OF nd Dir ip_def st1_def invA ih1 "3.prems"(3)]
      have unf: "search_items br p ((item, node) # rest) depth st =
          search_items br p rest depth (search_directory br ip l sub (depth + 1) st1)"
        using nd Dir by (simp add: ip_def st1_def Let_def)
      show ?thesis unfolding unf by (rule ih2)
    qed
  qed
qed

lemma py_strip_main: "py_strip ''main'' = ''main''"
  by (simp add: py_strip_def py_isspace_def)

section \<open>Repository scan: the depth bound\<close>

text \<open>
  C2, as stated, at a tree whose only repository lies four levels below the root: the scan
  reports it, while no subdirectory at depths 1 to 3 holds a marker.
\<close>

theorem scan_depth_bound_counterexample:
  "find_all_git_repositories git_main ''/r'' (Some (Dir True deep_entries)) =
     Inr [\<lparr>r_path = ''/r/a/b/c/d'', r_name = ''d'', r_branch = ''main''\<rparr>] \<and>
   marked_subdirs 3 ''/r'' deep_entries = []"
  by (simp add: find_all_git_repositories_def deep_entries_def has_git_dir_def
        starts_with_dot_def os_path_join_def get_branch_name_def git_main_def py_strip_main Let_def
        numeral_3_eq_3)

text \<open>
  C2, amended. For every directory tree the scan returns, each once, exactly the
  directories at depths 1 to 4 below the scanned root that contain a \<open>.git\<close> directory,
  are reached through listable directories only and have no dot-prefixed name on their
  path below the root.
\<close>

theorem scan_reports_reachable_marked:
  "\<exists>rs. find_all_git_repositories run root_path (Some (Dir l es)) = Inr rs \<and>
        set (map r_path rs) = set (reachable_marked 4 root_path l es) \<and>
        distinct (map r_path rs)"
proof -
  define st0 where "st0 = \<lparr>repos = [], found_paths = {}\<rparr>"
  define stE where "stE = search_directory (get_branch_name run) root_path l es 0 st0"
  have i0: "found_paths st0 = r_path ` set (repos st0)" by (simp add: st0_def)
  have d0: "distinct (map r_path (repos st0))" by (simp add: st0_def)
  have a: "found_paths stE = r_path ` set (repos stE)"
    using conjunct1[OF scan_inv(1)[OF i0]] unfolding stE_def .
  have b: "found_paths stE = found_paths st0 \<union> set (reachable_marked (4 - 0) root_path l es)"
    using conjunct2[OF scan_inv(1)[OF i0]] unfolding stE_def .
  have c: "distinct (map r_path (repos stE))"
    using scan_distinct(1)[OF i0 d0] unfolding stE_def .
  have "set (map r_path (repos stE)) = set (reachable_marked 4 root_path l es)"
    using a b by (simp add: st0_def)
  moreover have "find_all_git_repositories run root_path (Some (Dir l es)) = Inr (repos stE)"
    by (simp add: find_all_git_repositories_def stE_def st0_def)
  ultimately show ?thesis using c by blast
qed

theorem scan_reports_reachable_marked_witness:
  "\<exists>rs. find_all_git_repositories git_main ''/r'' (Some (Dir True deep_entries)) = Inr rs \<and>
        set (map r_path rs) = {''/r/a/b/c/d''} \<and> distinct (map r_path rs)"
  using scan_reports_reachable_marked [of git_main "''/r''" True deep_entries]
  by (simp add: deep_entries_def has_git_dir_def starts_with_dot_def os_path_join_def
        eval_nat_numeral)

section \<open>Repository scan: the root and dot-prefixed entries\<close>

text \<open>Every record the walk adds stands for a chain of the tree without dot-prefixed names.\<close>

lemma marked_chain_rest: "marked_chain rest comps \<Longrightarrow> marked_chain (x # rest) comps"
  by (cases comps) simp_all

lemma marked_chain_here:
  "has_git_dir sub \<Longrightarrow> marked_chain ((item, Dir l sub) # rest) [item]"
  by simp

lemma marked_chain_below:
  "marked_chain sub cs \<Longrightarrow> marked_chain ((item, Dir l sub) # rest) (item # cs)"
  by (cases cs) simp_all

lemma reported_via_rest: "reported_via p rest r \<Longrightarrow> reported_via p (x # rest) r"
  unfolding reported_via_def using marked_chain_rest by blast

lemma reported_via_here:
  assumes "has_git_dir sub" and "\<not> starts_with_dot item"
  shows "reported_via p ((item, Dir l sub) # rest)
           \<lparr>r_path = os_path_join p item, r_name = item, r_branch = b\<rparr>"
  unfolding reported_via_def
  by (rule exI[of _ "[item]"]) (use assms in simp)

lemma reported_via_below:
  assumes "reported_via (os_path_join p item) sub r" and "\<not> starts_with_dot item"
  shows "reported_via p ((item, Dir l sub) # rest) r"
proof -
  from assms(1) obtain cs where cs: "marked_chain sub cs" "\<forall>c\<in>set cs. \<not> starts_with_dot c"
      "r_path r = foldl os_path_join (os_path_join p item) cs" "r_name r = last cs"
    unfolding reported_via_def by blast
  have ne: "cs \<noteq> []" using cs(1) by auto
  have "marked_chain ((item, Dir l sub) # rest) (item # cs)"
    by (rule marked_chain_below[OF cs(1)])
  moreover have "\<forall>c\<in>set (item # cs). \<not> starts_with_dot c" using cs(2) assms(2) by simp
  moreover have "r_path r = foldl os_path_join p (item # cs)" using cs(3) by simp
  moreover have "r_name r = last (item # cs)" using cs(4) ne by simp
  ultimately show ?thesis unfolding reported_via_def by blast
qed

lemma scan_chain:
  "\<forall>r\<in>set (repos (search_directory br p l es d st)). r \<in> set (repos st) \<or> reported_via p es r"
  "\<forall>r\<in>set (repos (search_items br p es d st)). r \<in> set (repos st) \<or> reported_via p es r"
proof (induction br p l es d st and br p es d st rule: search_directory_search_items.induct)
  case (1 br p listable entries depth st)
  show ?case
  proof (cases "depth > 3 \<or> \<not> listable")
    case True
    then show ?thesis by auto
  next
    case False
    then have a: "\<not> 3 < depth" and b: "\<not> \<not> listable" by auto
    have unf: "search_directory br p listable entries depth st = search_items br p entries depth st"
      using False by simp
    from "1.IH"[OF a b] show ?thesis unfolding unf .
  qed
next
  case (2 br p depth st)
  then show ?case by simp
next
  case (3 br p item node rest depth st)
  show ?case
  proof (cases "starts_with_dot item")
    case True
    have unf: "search_items br p ((item, node) # rest) depth st = search_items br p rest depth st"
      using True by simp
    from "3.IH"(1)[OF True] show ?thesis unfolding unf using reported_via_rest by blast
  next
    case nd: False
    show ?thesis
    proof (cases node)
      case File
      have unf: "search_items br p ((item, node) # rest) depth st = search_items br p rest depth st"
        using nd File by simp
      from "3.IH"(2)[OF nd File] show ?thesis unfolding unf using reported_via_rest by blast
    next
      case (Dir l sub)
      define ip where "ip = os_path_join p item"
      define st1 where "st1 = (if has_git_dir sub \<and> ip \<notin> found_paths st
                         then \<lparr>repos = repos st @
                                 [\<lparr>r_path = ip, r_name = item,
                                   r_branch = br ip\<rparr>],
                               found_paths = insert ip (found_paths st)\<rparr>
                         else st)"
      define stA where "stA = search_directory br ip l sub (depth + 1) st1"
      define stB where "stB = search_items br p rest depth stA"
      have s1: "\<forall>r\<in>set (repos st1). r \<in> set (repos st) \<or>
                  reported_via p ((item, node) # rest) r"
        unfolding st1_def ip_def Dir using reported_via_here[of sub item p l rest] nd by auto
      have sA: "\<forall>r\<in>set (repos stA). r \<in> set (repos st1) \<or> reported_via ip sub r"
        using "3.IH"(3)[OF nd Dir ip_def st1_def] unfolding stA_def .
      have sB: "\<forall>r\<in>set (repos stB). r \<in> set (repos stA) \<or> reported_via p rest r"
        using "3.IH"(4)[OF nd Dir ip_def st1_def] unfolding stA_def stB_def .
      have unf: "search_items br p ((item, node) # rest) depth st = stB"
        using nd Dir by (simp add: ip_def st1_def stA_def stB_def Let_def)
      show ?thesis
        unfolding unf
      proof
        fix r assume "r \<in> set (repos stB)"
        with sB have "r \<in> set (repos stA) \<or> reported_via p rest r" by blast
        then show "r \<in> set (repos st) \<or> reported_via p ((item, node) # rest) r"
        proof
          assume "reported_via p rest r"
          then show ?thesis using reported_via_rest by blast
        next
          assume "r \<in> set (repos stA)"
          with sA have "r \<in> set (repos st1) \<or> reported_via ip sub r" by blast
          then show ?thesis
          proof
            assume "r \<in> set (repos st1)"
            with s1 show ?thesis by blast
          next
            assume "reported_via ip sub r"
            then have "reported_via p ((item, Dir l sub) # rest) r"
              unfolding ip_def using nd by (rule reported_via_below)
            then show ?thesis using Dir by simp
          qed
        qed
      qed
    qed
  qed
qed

lemma marked_chain_valid:
  "names_ok es \<Longrightarrow> marked_chain es comps \<Longrightarrow> \<forall>c\<in>set comps. valid_name c"
proof (induction es arbitrary: comps rule: names_ok.induct)
  case 1
  then show ?case by (cases comps) simp_all
next
  case (2 n rest)
  have "marked_chain rest comps" using "2.prems"(2) by (cases comps) simp_all
  moreover have "names_ok rest" using "2.prems"(1) by simp
  ultimately show ?case by (rule "2.IH"[rotated])
next
  case (3 n l sub rest)
  show ?case
  proof (cases comps)
    case Nil
    then show ?thesis by simp
  next
    case (Cons c cs)
    from "3.prems" have v: "valid_name n" and oks: "names_ok sub" and okr: "names_ok rest" by auto
    from "3.prems"(2) Cons have
      "(n = c \<and> (if cs = [] then has_git_dir sub else marked_chain sub cs)) \<or>
       marked_chain rest (c # cs)"
      by simp
    then show ?thesis
    proof
      assume a: "n = c \<and> (if cs = [] then has_git_dir sub else marked_chain sub cs)"
      show ?thesis
      proof (cases "cs = []")
        case True
        with a v Cons show ?thesis by simp
      next
        case False
        with a have "marked_chain sub cs" by simp
        from "3.IH"(1)[OF oks this] a v Cons show ?thesis by simp
      qed
    next
      assume "marked_chain rest (c # cs)"
      from "3.IH"(2)[OF okr this] Cons show ?thesis by simp
    qed
  qed
qed

text \<open>
  With names that are not empty and hold no separator, the joined path is the root, a
  separator where the root does not end with one, and the names with separators between
  them: it is longer than the root and it determines the names.
\<close>

lemma join_valid:
  "valid_name c \<Longrightarrow>
     os_path_join p c = p @ (if p = [] \<or> last p = CHR ''/'' then [] else ''/'') @ c"
  by (cases c) (auto simp: os_path_join_def valid_name_def)

lemma join_valid_end:
  assumes "valid_name c"
  shows "os_path_join p c \<noteq> [] \<and> last (os_path_join p c) \<noteq> CHR ''/''"
proof -
  have c: "c \<noteq> []" "last c \<noteq> CHR ''/''"
    using assms by (auto simp: valid_name_def dest: last_in_set)
  then show ?thesis by (simp add: join_valid[OF assms])
qed

lemma foldl_join_flat:
  "\<forall>c\<in>set cs. valid_name c \<Longrightarrow> p \<noteq> [] \<Longrightarrow> last p \<noteq> CHR ''/'' \<Longrightarrow>
     foldl os_path_join p cs = p @ concat (map (\<lambda>c. ''/'' @ c) cs)"
proof (induction cs arbitrary: p)
  case Nil
  then show ?case by simp
next
  case (Cons c cs)
  have v: "valid_name c" using Cons.prems(1) by simp
  have e: "os_path_join p c = p @ ''/'' @ c" using join_valid[OF v, of p] Cons.prems(2,3) by simp
  have "foldl os_path_join (os_path_join p c) cs =
          os_path_join p c @ concat (map (\<lambda>c. ''/'' @ c) cs)"
    using Cons.IH[of "os_path_join p c"] Cons.prems(1) join_valid_end[OF v, of p] by simp
  then show ?case by (simp add: e)
qed

lemma name_split:
  assumes "CHR ''/'' \<notin> set a" and "CHR ''/'' \<notin> set b"
    and "x = [] \<or> hd x = CHR ''/''" and "y = [] \<or> hd y = CHR ''/''"
    and "a @ x = b @ y"
  shows "a = b \<and> x = y"
proof -
  have ta: "takeWhile (\<lambda>c. c \<noteq> CHR ''/'') (a @ x) = a"
    using assms(1,3) by (cases x) (auto simp: takeWhile_append2 takeWhile_tail)
  have tb: "takeWhile (\<lambda>c. c \<noteq> CHR ''/'') (b @ y) = b"
    using assms(2,4) by (cases y) (auto simp: takeWhile_append2 takeWhile_tail)
  from ta tb assms(5) have "a = b" by simp
  with assms(5) show ?thesis by simp
qed

lemma flat_head: "concat (map (\<lambda>c. ''/'' @ c) cs) = [] \<or> hd (concat (map (\<lambda>c. ''/'' @ c) cs)) = CHR ''/''"
  by (cases cs) simp_all

lemma flat_inj:
  "\<forall>c\<in>set cs. valid_name c \<Longrightarrow> \<forall>c\<in>set cs'. valid_name c \<Longrightarrow>
     concat (map (\<lambda>c. ''/'' @ c) cs) = concat (map (\<lambda>c. ''/'' @ c) cs') \<Longrightarrow> cs = cs'"
proof (induction cs arbitrary: cs')
  case Nil
  then show ?case by (cases cs') simp_all
next
  case (Cons c cs)
  show ?case
  proof (cases cs')
    case Nil
    with Cons.prems(3) show ?thesis by simp
  next
    case (Cons c' cs'')
    have v: "CHR ''/'' \<notin> set c" "CHR ''/'' \<notin> set c'"
      using Cons.prems(1,2) Cons by (auto simp: valid_name_def)
    have eq: "c @ concat (map (\<lambda>c. ''/'' @ c) cs) = c' @ concat (map (\<lambda>c. ''/'' @ c) cs'')"
      using Cons.prems(3) Cons by simp
    from name_split[OF v flat_head flat_head eq]
    have "c = c'" and r: "concat (map (\<lambda>c. ''/'' @ c) cs) = concat (map (\<lambda>c. ''/'' @ c) cs'')"
      by simp_all
    moreover have "cs = cs''"
      using Cons.IH[OF _ _ r] Cons.prems(1,2) Cons by simp
    ultimately show ?thesis using Cons by simp
  qed
qed

lemma foldl_join_longer:
  "\<forall>c\<in>set cs. valid_name c \<Longrightarrow> cs \<noteq> [] \<Longrightarrow> length p < length (foldl os_path_join p cs)"
proof (induction cs arbitrary: p)
  case Nil
  then show ?case by simp
next
  case (Cons c cs)
  have v: "valid_name c" using Cons.prems(1) by simp
  show ?case
  proof (cases "cs = []")
    case True
    then show ?thesis using join_longer[OF v, of p] by simp
  next
    case False
    from Cons.IH[of "os_path_join p c"] Cons.prems(1) False join_longer[OF v, of p]
    show ?thesis by fastforce
  qed
qed

lemma foldl_join_inj:
  assumes "\<forall>c\<in>set cs. valid_name c" and "\<forall>c\<in>set cs'. valid_name c"
    and "foldl os_path_join p cs = foldl os_path_join p cs'"
  shows "cs = cs'"
proof (cases cs)
  case Nil
  show ?thesis
  proof (cases "cs' = []")
    case True
    with Nil show ?thesis by simp
  next
    case False
    from foldl_join_longer[OF assms(2) False, of p] assms(3) Nil show ?thesis by simp
  qed
next
  case (Cons c cs1)
  show ?thesis
  proof (cases cs')
    case Nil
    have "cs \<noteq> []" using Cons by simp
    from foldl_join_longer[OF assms(1) this, of p] assms(3) Nil show ?thesis by simp
  next
    case (Cons c' cs1')
    note C' = this
    have vc: "valid_name c" "valid_name c'" and v1: "\<forall>c\<in>set cs1. valid_name c"
      and v1': "\<forall>c\<in>set cs1'. valid_name c"
      using assms(1,2) \<open>cs = c # cs1\<close> C' by simp_all
    define s where "s = (if p = [] \<or> last p = CHR ''/'' then [] else ''/'')"
    have l: "foldl os_path_join p cs = p @ s @ c @ concat (map (\<lambda>c. ''/'' @ c) cs1)"
      using foldl_join_flat[OF v1, of "os_path_join p c"] join_valid_end[OF vc(1), of p]
        join_valid[OF vc(1), of p] \<open>cs = c # cs1\<close> by (simp add: s_def)
    have r: "foldl os_path_join p cs' = p @ s @ c' @ concat (map (\<lambda>c. ''/'' @ c) cs1')"
      using foldl_join_flat[OF v1', of "os_path_join p c'"] join_valid_end[OF vc(2), of p]
        join_valid[OF vc(2), of p] C' by (simp add: s_def)
    have eq: "c @ concat (map (\<lambda>c. ''/'' @ c) cs1) = c' @ concat (map (\<lambda>c. ''/'' @ c) cs1')"
      using assms(3) l r by simp
    have n: "CHR ''/'' \<notin> set c" "CHR ''/'' \<notin> set c'" using vc by (auto simp: valid_name_def)
    from name_split[OF n flat_head flat_head eq]
    have "c = c'" and "concat (map (\<lambda>c. ''/'' @ c) cs1) = concat (map (\<lambda>c. ''/'' @ c) cs1')"
      by simp_all
    with flat_inj[OF v1 v1'] show ?thesis using \<open>cs = c # cs1\<close> C' by simp
  qed
qed

text \<open>
  C10. Every reported repository is reached from the scanned root along a chain of
  directory names of the tree none of which starts with a dot; its path is the root joined
  with these names and its name is the last of them. With names as \<open>os.listdir\<close> returns
  them, the path is not the root's, whether or not the root holds a marker, and the chain
  is the only way to read the path as the root followed by names: no reported path runs
  through a dot-prefixed directory or ends in one.
\<close>

theorem scan_skips_root_and_dot_entries:
  assumes "find_all_git_repositories run root_path (Some (Dir l es)) = Inr rs"
    and "r \<in> set rs"
  shows "\<exists>comps. comps \<noteq> [] \<and> marked_chain es comps \<and>
           (\<forall>c\<in>set comps. \<not> starts_with_dot c) \<and>
           r_path r = foldl os_path_join root_path comps \<and> r_name r = last comps \<and>
           (names_ok es \<longrightarrow>
              (\<forall>c\<in>set comps. valid_name c) \<and> r_path r \<noteq> root_path \<and>
              (\<forall>cs. (\<forall>c\<in>set cs. valid_name c) \<and> foldl os_path_join root_path cs = r_path r
                      \<longrightarrow> cs = comps))"
proof -
  define st0 where "st0 = \<lparr>repos = [], found_paths = {}\<rparr>"
  have rs: "rs = repos (search_directory (get_branch_name run) root_path l es 0 st0)"
    using assms(1) by (simp add: find_all_git_repositories_def st0_def)
  have "r \<in> set (repos st0) \<or> reported_via root_path es r"
    using scan_chain(1)[of "get_branch_name run" root_path l es 0 st0] assms(2)
    unfolding rs by blast
  then have "reported_via root_path es r" by (simp add: st0_def)
  then obtain comps where c: "marked_chain es comps" "\<forall>c\<in>set comps. \<not> starts_with_dot c"
      "r_path r = foldl os_path_join root_path comps" "r_name r = last comps"
    unfolding reported_via_def by blast
  have ne: "comps \<noteq> []" using c(1) by auto
  have "(\<forall>c\<in>set comps. valid_name c) \<and> r_path r \<noteq> root_path \<and>
        (\<forall>cs. (\<forall>c\<in>set cs. valid_name c) \<and> foldl os_path_join root_path cs = r_path r
                \<longrightarrow> cs = comps)" if ok: "names_ok es"
  proof -
    have v: "\<forall>c\<in>set comps. valid_name c" by (rule marked_chain_valid[OF ok c(1)])
    have "length root_path < length (r_path r)"
      using foldl_join_longer[OF v ne, of root_path] c(3) by simp
    then have "r_path r \<noteq> root_path" by auto
    moreover have "cs = comps"
      if "(\<forall>c\<in>set cs. valid_name c) \<and> foldl os_path_join root_path cs = r_path r" for cs
      using foldl_join_inj[of cs comps root_path] that v c(3) by simp
    ultimately show ?thesis using v by blast
  qed
  with c ne show ?thesis by blast
qed

theorem scan_skips_root_and_dot_entries_witness:
  "find_all_git_repositories git_main ''/r'' (Some (Dir True dotted_entries)) =
     Inr [\<lparr>r_path = ''/r/app'', r_name = ''app'', r_branch = ''main''\<rparr>] \<and>
   names_ok dotted_entries \<and> has_git_dir dotted_entries \<and>
   marked_chain dotted_entries [''.cache'', ''x''] \<and> marked_chain dotted_entries [''.hidden''] \<and>
   (\<exists>comps. comps \<noteq> [] \<and> marked_chain dotted_entries comps \<and>
      (\<forall>c\<in>set comps. \<not> starts_with_dot c) \<and>
      ''/r/app'' = foldl os_path_join ''/r'' comps \<and> ''app'' = last comps \<and>
      (\<forall>c\<in>set comps. valid_name c) \<and> ''/r/app'' \<noteq> ''/r'' \<and>
      (\<forall>cs. (\<forall>c\<in>set cs. valid_name c) \<and> foldl os_path_join ''/r'' cs = ''/r/app''
              \<longrightarrow> cs = comps))"
proof -
  have v: "find_all_git_repositories git_main ''/r'' (Some (Dir True dotted_entries)) =
     Inr [\<lparr>r_path = ''/r/app'', r_name = ''app'', r_branch = ''main''\<rparr>]"
    by (simp add: find_all_git_repositories_def dotted_entries_def has_git_dir_def
        starts_with_dot_def os_path_join_def get_branch_name_def git_main_def py_strip_main Let_def)
  have n: "names_ok dotted_entries" "has_git_dir dotted_entries"
    "marked_chain dotted_entries [''.cache'', ''x'']" "marked_chain dotted_entries [''.hidden'']"
    by (simp_all add: dotted_entries_def valid_name_def has_git_dir_def)
  from scan_skips_root_and_dot_entries [OF v, of "\<lparr>r_path = ''/r/app'', r_name = ''app'', r_branch = ''main''\<rparr>"]
    v n show ?thesis by simp
qed

text \<open>
  The repository \<open>x\<close> inside the dot-prefixed directory \<open>.cache\<close> of the example tree
  does not meet this description.
\<close>

lemma dotted_record_not_described:
  "\<not> (\<exists>comps. marked_chain dotted_entries comps \<and> (\<forall>c\<in>set comps. \<not> starts_with_dot c) \<and>
           ''/r/.cache/x'' = foldl os_path_join ''/r'' comps \<and> ''x'' = last comps \<and>
           (names_ok dotted_entries \<longrightarrow>
              (\<forall>c\<in>set comps. valid_name c) \<and> ''/r/.cache/x'' \<noteq> ''/r'' \<and>
              (\<forall>cs. (\<forall>c\<in>set cs. valid_name c) \<and> foldl os_path_join ''/r'' cs = ''/r/.cache/x''
                      \<longrightarrow> cs = comps)))"
proof
  assume "\<exists>comps. marked_chain dotted_entries comps \<and> (\<forall>c\<in>set comps. \<not> starts_with_dot c) \<and>
           ''/r/.cache/x'' = foldl os_path_join ''/r'' comps \<and> ''x'' = last comps \<and>
           (names_ok dotted_entries \<longrightarrow>
              (\<forall>c\<in>set comps. valid_name c) \<and> ''/r/.cache/x'' \<noteq> ''/r'' \<and>
              (\<forall>cs. (\<forall>c\<in>set cs. valid_name c) \<and> foldl os_path_join ''/r'' cs = ''/r/.cache/x''
                      \<longrightarrow> cs = comps))"
  then obtain comps where nd: "\<forall>c\<in>set comps. \<not> starts_with_dot c"
    and u: "names_ok dotted_entries \<longrightarrow> (\<forall>cs. (\<forall>c\<in>set cs. valid_name c) \<and>
              foldl os_path_join ''/r'' cs = ''/r/.cache/x'' \<longrightarrow> cs = comps)"
    by blast
  have "names_ok dotted_entries" by (simp add: dotted_entries_def valid_name_def)
  with u have "(\<forall>c\<in>set [''.cache'', ''x'']. valid_name c) \<and>
              foldl os_path_join ''/r'' [''.cache'', ''x''] = ''/r/.cache/x'' \<longrightarrow> [''.cache'', ''x''] = comps"
    by blast
  then have "comps = [''.cache'', ''x'']" by (simp add: valid_name_def os_path_join_def)
  with nd show False by (simp add: starts_with_dot_def)
qed

section \<open>Color configuration: dictionaries and the save\<close>

lemma map_of_update_same: "map_of (AList.update k v al) k = Some v"
  by (simp add: update_conv')

lemma map_of_update_other: "k' \<noteq> k \<Longrightarrow> map_of (AList.update k v al) k' = map_of al k'"
  by (simp add: update_conv')

lemma update_absent: "map_of al k = None \<Longrightarrow> AList.update k v al = al @ [(k, v)]"
  by (induction al) (auto split: if_splits)

lemma save_config_cases:
  "save_config st fs path =
     (if os_path_dirname (save_path_of st path) = [] then (Some FileNotFoundError, st, fs)
      else (None,
            st\<lparr>config := AList.update ''modules'' (module_colors st) (config st), shared := True\<rparr>,
            fs(save_path_of st path \<mapsto>
                 JsonText (JObj (AList.update ''modules'' (module_colors st) (config st))))))"
  by (simp add: save_config_def Let_def)

lemma save_config_keeps_modules:
  "save_config st fs path = (e, st1, fs1) \<Longrightarrow> module_colors st1 = module_colors st"
  by (auto simp: save_config_cases split: if_splits)

lemma save_config_error: 
  "save_config st fs path = (e, st1, fs1) \<Longrightarrow> e = None \<or> e = Some FileNotFoundError"
  by (auto simp: save_config_cases split: if_splits)

lemma distinct_update_keys: "distinct (map fst al) \<Longrightarrow> distinct (map fst (AList.update k v al))"
  by (simp add: distinct_update)

lemma dirname_example: "os_path_dirname ''/opt/app/config/colors.json'' = ''/opt/app/config''"
  by (simp add: os_path_dirname_def)

lemma dirname_Nil: "os_path_dirname [] = []"
  by (simp add: os_path_dirname_def)

lemma load_config_dict:
  "fs (config_path st) = Some (JsonText (JObj d)) \<Longrightarrow>
     load_config st fs =
       Inr (st\<lparr>config := d,
               module_colors := (case map_of d ''modules'' of Some m \<Rightarrow> m | None \<Rightarrow> JObj []),
               shared := (map_of d ''modules'' \<noteq> None)\<rparr>, fs)"
  by (simp add: load_config_def Let_def)

lemma load_config_absent:
  "fs (config_path st) = None \<or> fs (config_path st) = Some Unreadable \<or>
   fs (config_path st) = Some InvalidJson \<Longrightarrow>
     load_config st fs =
       (case create_default_config st fs of
          (Some e, _, _) \<Rightarrow> Inl e
        | (None, st1, fs1) \<Rightarrow> Inr (st1, fs1))"
  by (auto simp: load_config_def Let_def)

section \<open>Loading a missing or unparsable file\<close>

text \<open>
  Where the configuration path has a directory part and holds no file, a file that cannot
  be read or a text that is no JSON, the constructor builds the default document and
  writes it to that path. The application's own path is such a path.
\<close>

lemma load_creates_default_document:
  assumes "fs p = None \<or> fs p = Some Unreadable \<or> fs p = Some InvalidJson"
    and "os_path_dirname p \<noteq> []"
  shows "ColorConfig_init app_root (Some p) fs =
           Inr (\<lparr>config_path = p, config = default_document, module_colors = JObj [],
                 shared = True\<rparr>,
                fs(p \<mapsto> JsonText (JObj default_document)))"
proof -
  have pn: "p \<noteq> []" using assms(2) dirname_Nil by auto
  define st0 where "st0 = \<lparr>config_path = p, config = [], module_colors = JObj [], shared = False\<rparr>"
  have a: "fs (config_path st0) = None \<or> fs (config_path st0) = Some Unreadable \<or>
           fs (config_path st0) = Some InvalidJson"
    using assms(1) by (simp add: st0_def)
  have "ColorConfig_init app_root (Some p) fs = load_config st0 fs"
    using pn by (simp add: ColorConfig_init_def st0_def)
  also have "\<dots> = (case create_default_config st0 fs of
          (Some e, _, _) \<Rightarrow> Inl e
        | (None, st1, fs1) \<Rightarrow> Inr (st1, fs1))"
    by (rule load_config_absent[of fs st0, OF a])
  also have "\<dots> = Inr (\<lparr>config_path = p, config = default_document, module_colors = JObj [],
                 shared = True\<rparr>,
                fs(p \<mapsto> JsonText (JObj default_document)))"
    using assms(2)
    by (simp add: create_default_config_def save_config_cases save_path_of_def st0_def
          default_document_def)
  finally show ?thesis .
qed

lemma load_default_path:
  assumes "fs (default_config_path ''/opt/app'') = None"
  shows "ColorConfig_init ''/opt/app'' None fs =
           Inr (\<lparr>config_path = ''/opt/app/config/colors.json'', config = default_document,
                  module_colors = JObj [], shared = True\<rparr>,
                fs(''/opt/app/config/colors.json'' \<mapsto> JsonText (JObj default_document)))"
  using assms
  by (simp add: ColorConfig_init_def load_config_def create_default_config_def save_config_cases
        save_path_of_def default_config_path_def os_path_join_def dirname_example
        default_document_def Let_def)

text \<open>
  C1. At a configuration path without a directory part and with no file there, the
  constructor does not create and persist the default document: \<open>os.makedirs\<close> is
  called on the empty directory name and the \<open>FileNotFoundError\<close> leaves the
  constructor.
\<close>

theorem load_missing_bare_filename_raises:
  "ColorConfig_init ''/opt/app'' (Some ''colors.json'') Map.empty = Inl FileNotFoundError"
  by (simp add: ColorConfig_init_def load_config_def create_default_config_def save_config_cases
        save_path_of_def os_path_dirname_def Let_def)

section \<open>Registering a module\<close>

text \<open>
  C3. For every module name and any two color pairs, a second \<open>register_module\<close> with
  other defaults changes neither the store nor the disk, so the colors of the first call
  are kept; it returns normally unless the first call raised \<open>TypeError\<close>. Where the
  module map is a dictionary with one entry per name, it still is one after the first
  call, and the name has its entry.
\<close>

theorem register_module_twice:
  assumes "register_module st fs module_name bg1 fg1 = (e1, st1, fs1)"
  shows "register_module st1 fs1 module_name bg2 fg2 =
           (if e1 = Some TypeError then Some TypeError else None, st1, fs1) \<and>
         (module_colors st = JObj d \<and> distinct (map fst d) \<longrightarrow>
            (\<exists>d1. module_colors st1 = JObj d1 \<and> distinct (map fst d1) \<and>
                  map_of d1 module_name \<noteq> None))"
proof (cases "module_colors st")
  case (JObj dd)
  show ?thesis
  proof (cases "map_of dd module_name = None")
    case True
    define theme_bg where "theme_bg =
      (case map_of (case map_of module_themes module_name of Some t \<Rightarrow> t | None \<Rightarrow> []) ''bg_color''
       of Some c \<Rightarrow> c | None \<Rightarrow> bg1)"
    define theme_fg where "theme_fg =
      (case map_of (case map_of module_themes module_name of Some t \<Rightarrow> t | None \<Rightarrow> []) ''fg_color''
       of Some c \<Rightarrow> c | None \<Rightarrow> fg1)"
    define new where "new = AList.update module_name
        (JObj [(''bg_color'', JStr theme_bg), (''fg_color'', JStr theme_fg)]) dd"
    have s: "save_config (mutate_module_colors st (JObj new)) fs None = (e1, st1, fs1)"
      using assms JObj True
      by (simp add: register_module_def Let_def new_def theme_bg_def theme_fg_def)
    have m: "module_colors st1 = JObj new"
      using save_config_keeps_modules[OF s] by (simp add: mutate_module_colors_def)
    have e: "e1 \<noteq> Some TypeError" using save_config_error[OF s] by auto
    have p: "map_of new module_name \<noteq> None" by (simp add: new_def map_of_update_same)
    have "register_module st1 fs1 module_name bg2 fg2 = (None, st1, fs1)"
      using m p by (auto simp: register_module_def Let_def)
    moreover have "distinct (map fst new)" if "distinct (map fst dd)"
      unfolding new_def using that by (rule distinct_update_keys)
    ultimately show ?thesis using e m p JObj by auto
  next
    case False
    then have "e1 = None" "st1 = st" "fs1 = fs"
      using assms JObj by (auto simp: register_module_def Let_def split: if_splits)
    then show ?thesis using False JObj by (auto simp: register_module_def Let_def)
  qed
next
  case (JArr xs)
  then show ?thesis using assms
    by (auto simp: register_module_def Let_def split: if_splits)
next
  case (JStr s)
  then show ?thesis using assms
    by (auto simp: register_module_def Let_def split: if_splits)
qed (use assms in \<open>auto simp: register_module_def Let_def\<close>)


lemma register_notes_value:
  "register_module themed_store Map.empty ''Notes'' ''#111111'' ''#222222'' =
     (None, themed_after_notes,
      [''/opt/app/config/colors.json'' \<mapsto> JsonText (JObj (config themed_after_notes))])"
  by (simp add: register_module_def themed_store_def themed_after_notes_def module_themes_def
        mutate_module_colors_def save_config_cases save_path_of_def dirname_example Let_def)

theorem register_module_twice_witness:
  "register_module themed_after_notes
     [''/opt/app/config/colors.json'' \<mapsto> JsonText (JObj (config themed_after_notes))]
     ''Notes'' ''#aaaaaa'' ''#bbbbbb'' =
     (None, themed_after_notes,
      [''/opt/app/config/colors.json'' \<mapsto> JsonText (JObj (config themed_after_notes))]) \<and>
   get_module_color themed_after_notes ''Notes'' ''bg_color'' = Inr (Some (JStr ''#111111''))"
  using register_module_twice [OF register_notes_value, of "''#aaaaaa''" "''#bbbbbb''"]
  by (simp add: get_module_color_def themed_after_notes_def)

text \<open>
  C8. For a name that the module map (a dictionary) does not hold yet, \<open>register_module\<close>
  appends an entry for it: the built-in pair for \<open>Dashboard\<close>, \<open>System Status\<close>,
  \<open>Git Manager\<close> and \<open>Log\<close>, whatever defaults the caller gave, and the caller's
  defaults for every other name.
\<close>

theorem register_module_theme_or_defaults:
  assumes "module_colors st = JObj d"
    and "map_of d module_name = None"
    and "register_module st fs module_name default_bg default_fg = (e, st1, fs1)"
  shows "module_colors st1 = JObj (d @ [(module_name,
           if module_name = ''Dashboard''
             then JObj [(''bg_color'', JStr ''#ffffff''), (''fg_color'', JStr ''#2c3e50'')]
           else if module_name = ''System Status''
             then JObj [(''bg_color'', JStr ''#1a1a2e''), (''fg_color'', JStr ''#00d4ff'')]
           else if module_name = ''Git Manager''
             then JObj [(''bg_color'', JStr ''#0d1117''), (''fg_color'', JStr ''#58a6ff'')]
           else if module_name = ''Log''
             then JObj [(''bg_color'', JStr ''#000000''), (''fg_color'', JStr ''#00ff00'')]
           else JObj [(''bg_color'', JStr default_bg), (''fg_color'', JStr default_fg)])])"
proof -
  define theme_bg where "theme_bg =
      (case map_of (case map_of module_themes module_name of Some t \<Rightarrow> t | None \<Rightarrow> []) ''bg_color''
       of Some c \<Rightarrow> c | None \<Rightarrow> default_bg)"
  define theme_fg where "theme_fg =
      (case map_of (case map_of module_themes module_name of Some t \<Rightarrow> t | None \<Rightarrow> []) ''fg_color''
       of Some c \<Rightarrow> c | None \<Rightarrow> default_fg)"
  define entry where "entry = JObj [(''bg_color'', JStr theme_bg), (''fg_color'', JStr theme_fg)]"
  have s: "save_config (mutate_module_colors st (JObj (AList.update module_name entry d))) fs None
             = (e, st1, fs1)"
    using assms by (simp add: register_module_def Let_def entry_def theme_bg_def theme_fg_def)
  have m: "module_colors st1 = JObj (d @ [(module_name, entry)])"
    using save_config_keeps_modules[OF s] update_absent[OF assms(2)]
    by (simp add: mutate_module_colors_def)
  have "entry =
          (if module_name = ''Dashboard''
             then JObj [(''bg_color'', JStr ''#ffffff''), (''fg_color'', JStr ''#2c3e50'')]
           else if module_name = ''System Status''
             then JObj [(''bg_color'', JStr ''#1a1a2e''), (''fg_color'', JStr ''#00d4ff'')]
           else if module_name = ''Git Manager''
             then JObj [(''bg_color'', JStr ''#0d1117''), (''fg_color'', JStr ''#58a6ff'')]
           else if module_name = ''Log''
             then JObj [(''bg_color'', JStr ''#000000''), (''fg_color'', JStr ''#00ff00'')]
           else JObj [(''bg_color'', JStr default_bg), (''fg_color'', JStr default_fg)])"
    by (simp add: entry_def theme_bg_def theme_fg_def module_themes_def)
  with m show ?thesis by simp
qed

theorem register_module_theme_or_defaults_witness:
  "module_colors (fst (snd (register_module empty_store Map.empty ''Git Manager'' ''#ffffff'' ''#000000''))) =
     JObj [(''Git Manager'', JObj [(''bg_color'', JStr ''#0d1117''), (''fg_color'', JStr ''#58a6ff'')])] \<and>
   module_colors (fst (snd (register_module empty_store Map.empty ''Notes'' ''#ffffff'' ''#000000''))) =
     JObj [(''Notes'', JObj [(''bg_color'', JStr ''#ffffff''), (''fg_color'', JStr ''#000000'')])]"
proof -
  have m: "module_colors empty_store = JObj []" by (simp add: empty_store_def)
  have n: "map_of ([] :: (string \<times> json) list) ''Git Manager'' = None"
          "map_of ([] :: (string \<times> json) list) ''Notes'' = None" by simp_all
  obtain e st1 fs1 where r1:
    "register_module empty_store Map.empty ''Git Manager'' ''#ffffff'' ''#000000'' = (e, st1, fs1)"
    by (metis prod_cases3)
  obtain e' st2 fs2 where r2:
    "register_module empty_store Map.empty ''Notes'' ''#ffffff'' ''#000000'' = (e', st2, fs2)"
    by (metis prod_cases3)
  from register_module_theme_or_defaults[OF m n(1) r1]
       register_module_theme_or_defaults[OF m n(2) r2] r1 r2
  show ?thesis by simp
qed

section \<open>Setting and reading a module color\<close>

text \<open>
  After a \<open>set_module_color\<close> that did not raise \<open>TypeError\<close>, the value is there,
  also when the save after the assignment raised.
\<close>

lemma set_module_color_stored:
  assumes "set_module_color st fs module_name color_type color_value auto_save = (e, st1, fs1)"
    and "e \<noteq> Some TypeError"
  shows "get_module_color st1 module_name color_type = Inr (Some (JStr color_value))"
proof -
  from assms obtain d where d: "module_colors st = JObj d"
    by (cases "module_colors st") (auto simp: set_module_color_def)
  define d1 where "d1 = (if map_of d module_name = None
                         then AList.update module_name (JObj []) d else d)"
  from assms d obtain en where en: "map_of d1 module_name = Some (JObj en)"
    by (auto simp: set_module_color_def d1_def Let_def split: option.splits json.splits if_splits)
  define new where "new = JObj (AList.update module_name
                          (JObj (AList.update color_type (JStr color_value) en)) d1)"
  have "module_colors st1 = new"
  proof (cases auto_save)
    case True
    then have "save_config (mutate_module_colors st new) fs None = (e, st1, fs1)"
      using assms(1) d en by (simp add: set_module_color_def d1_def[symmetric] new_def Let_def)
    from save_config_keeps_modules[OF this] show ?thesis
      by (simp add: mutate_module_colors_def)
  next
    case False
    then have "st1 = mutate_module_colors st new"
      using assms(1) d en by (simp add: set_module_color_def d1_def[symmetric] new_def Let_def)
    then show ?thesis by (simp add: mutate_module_colors_def)
  qed
  then show ?thesis
    by (simp add: get_module_color_def new_def map_of_update_same)
qed

text \<open>
  \<open>TypeError\<close> is raised only where the module map is no dictionary or the module's
  entry is none.
\<close>

lemma set_module_color_no_type_error:
  assumes "module_colors st = JObj d"
    and "map_of d module_name = None \<or> (\<exists>en. map_of d module_name = Some (JObj en))"
  shows "fst (set_module_color st fs module_name color_type color_value auto_save) \<noteq> Some TypeError"
proof -
  define d1 where "d1 = (if map_of d module_name = None
                         then AList.update module_name (JObj []) d else d)"
  obtain en where en: "map_of d1 module_name = Some (JObj en)"
    using assms(2) by (auto simp: d1_def map_of_update_same)
  define st1 where "st1 = mutate_module_colors st
                       (JObj (AList.update module_name
                          (JObj (AList.update color_type (JStr color_value) en)) d1))"
  have r: "set_module_color st fs module_name color_type color_value auto_save =
             (if auto_save then save_config st1 fs None else (None, st1, fs))"
    using assms(1) en by (simp add: set_module_color_def d1_def[symmetric] st1_def Let_def)
  show ?thesis
  proof (cases auto_save)
    case True
    obtain e st2 fs2 where s: "save_config st1 fs None = (e, st2, fs2)" by (metis prod_cases3)
    from save_config_error[OF s] s r True show ?thesis by auto
  next
    case False
    with r show ?thesis by simp
  qed
qed

text \<open>
  C4. For every module name, channel and color value, on a store whose module map is a
  dictionary in which the module has no entry yet or a dictionary as its entry (the
  annotated type of \<open>module_colors\<close>), \<open>set_module_color\<close> raises no \<open>TypeError\<close> and
  \<open>get_module_color\<close> on the same name and channel then returns the value just set,
  with or without the save.
\<close>

theorem set_then_get_module_color:
  assumes "module_colors st = JObj d"
    and "map_of d module_name = None \<or> (\<exists>en. map_of d module_name = Some (JObj en))"
  shows "fst (set_module_color st fs module_name color_type color_value auto_save) \<noteq> Some TypeError \<and>
         get_module_color
           (fst (snd (set_module_color st fs module_name color_type color_value auto_save)))
           module_name color_type = Inr (Some (JStr color_value))"
proof -
  obtain e st1 fs1 where r:
    "set_module_color st fs module_name color_type color_value auto_save = (e, st1, fs1)"
    by (metis prod_cases3)
  have e: "e \<noteq> Some TypeError"
    using set_module_color_no_type_error[OF assms, of fs color_type color_value auto_save] r
    by simp
  from set_module_color_stored[OF r e] e r show ?thesis by simp
qed

theorem set_then_get_module_color_witness:
  "fst (set_module_color themed_store Map.empty ''Notes'' ''fg_color'' ''#123456'' True) = None \<and>
   get_module_color
     (fst (snd (set_module_color themed_store Map.empty ''Notes'' ''fg_color'' ''#123456'' True)))
     ''Notes'' ''fg_color'' = Inr (Some (JStr ''#123456''))"
proof -
  have m: "module_colors themed_store =
             JObj [(''Log'', JObj [(''bg_color'', JStr ''#000000''), (''fg_color'', JStr ''#00ff00'')])]"
    by (simp add: themed_store_def)
  have n: "map_of [(''Log'', JObj [(''bg_color'', JStr ''#000000''), (''fg_color'', JStr ''#00ff00'')])]
             ''Notes'' = None \<or>
           (\<exists>en. map_of [(''Log'', JObj [(''bg_color'', JStr ''#000000''),
                                             (''fg_color'', JStr ''#00ff00'')])] ''Notes'' =
                   Some (JObj en))"
    by simp
  have e: "fst (set_module_color themed_store Map.empty ''Notes'' ''fg_color'' ''#123456'' True) = None"
    by (simp add: set_module_color_def themed_store_def mutate_module_colors_def
          save_config_cases save_path_of_def dirname_example Let_def)
  from set_then_get_module_color[OF m n, of Map.empty "''fg_color''" "''#123456''" True] e
  show ?thesis by simp
qed

section \<open>Resetting to the defaults\<close>

text \<open>
  From every store, \<open>reset_to_defaults\<close> leaves the module map empty and the window
  pair at its default, in the object; where the store's path has a directory part, it
  writes the document to that path.
\<close>

lemma reset_to_defaults_in_memory:
  assumes "reset_to_defaults st fs = (e, st1, fs1)"
  shows "module_colors st1 = JObj [] \<and>
         map_of (config st1) ''modules'' = Some (JObj []) \<and>
         map_of (config st1) ''window'' =
           Some (JObj [(''bg_color'', JStr ''#00c8f9''), (''fg_color'', JStr ''#ffffff'')])"
  using assms
  by (auto simp: reset_to_defaults_def save_config_cases save_path_of_def map_of_update_same
        map_of_update_other split: if_splits)

lemma reset_to_defaults_persists:
  assumes "reset_to_defaults st fs = (e, st1, fs1)"
    and "os_path_dirname (config_path st) \<noteq> []"
  shows "e = None \<and> fs1 (config_path st) = Some (JsonText (JObj (config st1)))"
  using assms
  by (auto simp: reset_to_defaults_def save_config_cases save_path_of_def)

text \<open>
  C5. A store opened on an existing file that is named without a directory part: the
  reset changes the object, but the save raises \<open>FileNotFoundError\<close> and the file keeps
  the old document, modules included.
\<close>

theorem reset_bare_filename_not_persisted:
  "ColorConfig_init ''/opt/app'' (Some ''colors.json'') bare_disk =
     Inr (\<lparr>config_path = ''colors.json'', config = bare_document,
            module_colors = JObj [(''Log'', JObj [(''bg_color'', JStr ''#101010''),
                                                  (''fg_color'', JStr ''#fafafa'')])],
            shared = True\<rparr>, bare_disk) \<and>
   fst (reset_to_defaults
     \<lparr>config_path = ''colors.json'', config = bare_document,
       module_colors = JObj [(''Log'', JObj [(''bg_color'', JStr ''#101010''),
                                             (''fg_color'', JStr ''#fafafa'')])],
       shared = True\<rparr> bare_disk) = Some FileNotFoundError \<and>
   snd (snd (reset_to_defaults
     \<lparr>config_path = ''colors.json'', config = bare_document,
       module_colors = JObj [(''Log'', JObj [(''bg_color'', JStr ''#101010''),
                                             (''fg_color'', JStr ''#fafafa'')])],
       shared = True\<rparr> bare_disk)) ''colors.json'' = Some (JsonText (JObj bare_document))"
  by (simp add: ColorConfig_init_def load_config_def reset_to_defaults_def save_config_cases
        save_path_of_def os_path_dirname_def bare_disk_def bare_document_def Let_def)

text \<open>
  C9. From every store, \<open>reset_to_defaults\<close> changes, in the document, the entries
  \<open>modules\<close> and \<open>window\<close> only: every other key, \<open>settings\<close>, \<open>version\<close> and
  \<open>description\<close> among them, keeps its value; the store keeps its path and no other
  path of the disk is written.
\<close>

theorem reset_to_defaults_frame:
  assumes "reset_to_defaults st fs = (e, st1, fs1)"
    and "k \<noteq> ''modules''" and "k \<noteq> ''window''"
  shows "map_of (config st1) k = map_of (config st) k \<and> config_path st1 = config_path st \<and>
         (\<forall>p. p \<noteq> config_path st \<longrightarrow> fs1 p = fs p)"
  using assms
  by (auto simp: reset_to_defaults_def save_config_cases save_path_of_def map_of_update_other
        split: if_splits)

theorem reset_to_defaults_frame_witness:
  "map_of (config (fst (snd (reset_to_defaults themed_store Map.empty)))) ''settings'' =
     Some (JObj [(''auto_apply'', JBool False)]) \<and>
   map_of (config (fst (snd (reset_to_defaults themed_store Map.empty)))) ''version'' =
     Some (JStr ''1.0'') \<and>
   map_of (config (fst (snd (reset_to_defaults themed_store Map.empty)))) ''description'' =
     Some (JStr ''my colors'') \<and>
   module_colors (fst (snd (reset_to_defaults themed_store Map.empty))) = JObj []"
proof -
  obtain e st1 fs1 where r: "reset_to_defaults themed_store Map.empty = (e, st1, fs1)"
    by (metis prod_cases3)
  have m: "module_colors st1 = JObj []"
    using r save_config_keeps_modules[of _ Map.empty None e st1 fs1]
    by (simp add: reset_to_defaults_def)
  from reset_to_defaults_frame[OF r, of "''settings''"]
       reset_to_defaults_frame[OF r, of "''version''"]
       reset_to_defaults_frame[OF r, of "''description''"] r m
  show ?thesis by (simp add: themed_store_def)
qed

section \<open>Saving and loading again\<close>

text \<open>
  After a \<open>save_config\<close> that returned, the file at the save path holds the document
  with the module map under \<open>modules\<close>, and loading reads that very document.
\<close>

lemma save_config_returned_roundtrip:
  assumes "save_config st fs path = (None, st1, fs1)"
  shows "config st1 = AList.update ''modules'' (module_colors st) (config st) \<and>
         fs1 (save_path_of st path) = Some (JsonText (JObj (config st1))) \<and>
         (\<exists>st2. ColorConfig_init app_root (Some (save_path_of st path)) fs1 = Inr (st2, fs1) \<and>
                config st2 = config st1 \<and> module_colors st2 = module_colors st1) \<and>
         (save_path_of st path = config_path st \<longrightarrow> load_config st1 fs1 = Inr (st1, fs1))"
proof -
  define p where "p = save_path_of st path"
  define c1 where "c1 = AList.update ''modules'' (module_colors st) (config st)"
  have dn: "os_path_dirname p \<noteq> []"
    using assms by (auto simp: save_config_cases p_def split: if_splits)
  then have pn: "p \<noteq> []" using dirname_Nil by auto
  have st1: "st1 = st\<lparr>config := c1, shared := True\<rparr>"
    and fs1: "fs1 = fs(p \<mapsto> JsonText (JObj c1))"
    using assms dn by (auto simp: save_config_cases p_def c1_def)
  have a: "config st1 = c1" by (simp add: st1)
  have b: "fs1 p = Some (JsonText (JObj c1))" by (simp add: fs1)
  have m: "map_of c1 ''modules'' = Some (module_colors st)"
    by (simp add: c1_def map_of_update_same)
  have c: "\<exists>st2. ColorConfig_init app_root (Some p) fs1 = Inr (st2, fs1) \<and>
                config st2 = config st1 \<and> module_colors st2 = module_colors st1"
    using pn b m by (simp add: ColorConfig_init_def load_config_dict st1)
  have d: "load_config st1 fs1 = Inr (st1, fs1)" if "p = config_path st"
  proof -
    have "fs1 (config_path st1) = Some (JsonText (JObj c1))" using that b by (simp add: st1)
    from load_config_dict[of fs1 st1 c1, OF this] show ?thesis using m by (simp add: st1)
  qed
  have b': "fs1 p = Some (JsonText (JObj (config st1)))" using a b by simp
  from a b' c d show ?thesis unfolding p_def c1_def by blast
qed

text \<open>
  C7. For every document and module map, \<open>save_config\<close> to a path with a directory part
  returns and leaves at that path the document with the module map under \<open>modules\<close>;
  a store constructed on that path has that very document and module map, key order
  included, and reloading the saving store from its own path gives the store back.
\<close>

theorem save_then_load_roundtrip:
  assumes "os_path_dirname (save_path_of st path) \<noteq> []"
  shows "\<exists>st1 fs1. save_config st fs path = (None, st1, fs1) \<and>
           config st1 = AList.update ''modules'' (module_colors st) (config st) \<and>
           fs1 (save_path_of st path) = Some (JsonText (JObj (config st1))) \<and>
           (\<exists>st2. ColorConfig_init app_root (Some (save_path_of st path)) fs1 = Inr (st2, fs1) \<and>
                  config st2 = config st1 \<and> module_colors st2 = module_colors st1) \<and>
           (save_path_of st path = config_path st \<longrightarrow> load_config st1 fs1 = Inr (st1, fs1))"
proof -
  obtain st1 fs1 where s: "save_config st fs path = (None, st1, fs1)"
    using assms by (simp add: save_config_cases)
  from save_config_returned_roundtrip[OF s, of app_root] s show ?thesis by blast
qed

theorem save_then_load_roundtrip_witness:
  "save_config themed_store Map.empty None =
     (None, themed_store,
      [''/opt/app/config/colors.json'' \<mapsto> JsonText (JObj (config themed_store))]) \<and>
   load_config themed_store
     [''/opt/app/config/colors.json'' \<mapsto> JsonText (JObj (config themed_store))] =
   Inr (themed_store,
     [''/opt/app/config/colors.json'' \<mapsto> JsonText (JObj (config themed_store))])"
proof -
  have d: "os_path_dirname (save_path_of themed_store None) \<noteq> []"
    by (simp add: save_path_of_def themed_store_def dirname_example)
  have v: "save_config themed_store Map.empty None =
     (None, themed_store,
      [''/opt/app/config/colors.json'' \<mapsto> JsonText (JObj (config themed_store))])"
    by (simp add: save_config_cases save_path_of_def themed_store_def dirname_example)
  from save_then_load_roundtrip[OF d, of Map.empty "''/opt/app''"] v
  show ?thesis by (simp add: save_path_of_def)
qed

end
